theory Spec2Isabelle
  imports Main "HOL-Library.Word" "HOL-Library.Sublist" "HOL-Library.Multiset"
begin

unbundle bit_operations_syntax

section \<open>Data model\<close>

text \<open>
  The program is a Node.js command line tool (\<^verbatim>\<open>cli.js\<close>, \<^verbatim>\<open>detectEncoding.js\<close>) that keeps
  line-oriented Russian word lists. A file on disk is a sequence of bytes; a JavaScript string
  is a sequence of UTF-16 code units, and string equality (the one \<^verbatim>\<open>Set\<close> uses) is equality of
  these sequences.
\<close>

type_synonym byte = "8 word"
type_synonym codeunit = "16 word"
type_synonym jsstring = "codeunit list"
type_synonym path = string

text \<open>The three strings \<^verbatim>\<open>'utf-8'\<close>, \<^verbatim>\<open>'windows-1251'\<close> and \<^verbatim>\<open>'unknown'\<close> that
  \<^verbatim>\<open>detectEncoding\<close> returns.\<close>

datatype encoding_label = Utf8 | Windows1251 | Unknown

text \<open>The second argument of \<^verbatim>\<open>a.localeCompare(b, 'ru')\<close> fixes the ICU collation of the
  runtime, which is not part of the repository: the comparator is a parameter of the model.\<close>

type_synonym comparator = "jsstring \<Rightarrow> jsstring \<Rightarrow> int"

section \<open>Runtime library: decoding bytes\<close>

subsection \<open>\<^verbatim>\<open>buffer.toString('utf8')\<close>\<close>

text \<open>
  Node decodes UTF-8 without ever throwing: every maximal ill-formed subsequence becomes one
  U+FFFD. The decoder is the usual state machine: a lead byte fixes how many continuation
  bytes are needed and the range allowed for the first of them (which excludes overlong forms,
  surrogates and values above U+10FFFF); a byte outside the range ends the sequence with U+FFFD
  and is then read again as a lead byte.
\<close>

datatype utf8_state = Idle | Pending nat nat byte byte

definition utf8_lead :: "byte \<Rightarrow> utf8_state \<times> nat list" where
  "utf8_lead b =
     (if b \<le> 0x7F then (Idle, [unat b])
      else if 0xC2 \<le> b \<and> b \<le> 0xDF then (Pending (unat (b AND 0x1F)) 1 0x80 0xBF, [])
      else if 0xE0 \<le> b \<and> b \<le> 0xEF then
        (Pending (unat (b AND 0x0F)) 2 (if b = 0xE0 then 0xA0 else 0x80)
           (if b = 0xED then 0x9F else 0xBF), [])
      else if 0xF0 \<le> b \<and> b \<le> 0xF4 then
        (Pending (unat (b AND 0x07)) 3 (if b = 0xF0 then 0x90 else 0x80)
           (if b = 0xF4 then 0x8F else 0xBF), [])
      else (Idle, [0xFFFD]))"

fun utf8_step :: "utf8_state \<Rightarrow> byte \<Rightarrow> utf8_state \<times> nat list" where
  "utf8_step Idle b = utf8_lead b"
| "utf8_step (Pending cp n lo hi) b =
     (if b < lo \<or> hi < b then (case utf8_lead b of (s, out) \<Rightarrow> (s, 0xFFFD # out))
      else if n = 1 then (Idle, [cp * 64 + unat (b AND 0x3F)])
      else (Pending (cp * 64 + unat (b AND 0x3F)) (n - 1) 0x80 0xBF, []))"

fun utf8_run :: "utf8_state \<Rightarrow> byte list \<Rightarrow> nat list" where
  "utf8_run Idle [] = []"
| "utf8_run (Pending cp n lo hi) [] = [0xFFFD]"
| "utf8_run s (b # bs) = (case utf8_step s b of (s', out) \<Rightarrow> out @ utf8_run s' bs)"

text \<open>A code point becomes one UTF-16 code unit, or a surrogate pair above U+FFFF.\<close>

definition utf16_units :: "nat \<Rightarrow> codeunit list" where
  "utf16_units cp =
     (if cp < 0x10000 then [of_nat cp]
      else [of_nat (0xD800 + (cp - 0x10000) div 0x400),
            of_nat (0xDC00 + (cp - 0x10000) mod 0x400)])"

definition toString_utf8 :: "byte list \<Rightarrow> jsstring" where
  "toString_utf8 buffer = concat (map utf16_units (utf8_run Idle buffer))"

subsection \<open>\<^verbatim>\<open>iconv.decode(buffer, 'windows-1251')\<close>\<close>

text \<open>
  iconv-lite decodes a single-byte code page through a table: bytes below 0x80 are ASCII, the
  other 128 come from the code page's character string. Byte 0x98 is undefined in
  Windows-1251 and its entry is U+FFFD.
\<close>

definition windows1251_chars :: "codeunit list" where
  "windows1251_chars =
     [0x0402, 0x0403, 0x201A, 0x0453, 0x201E, 0x2026, 0x2020, 0x2021,
      0x20AC, 0x2030, 0x0409, 0x2039, 0x040A, 0x040C, 0x040B, 0x040F,
      0x0452, 0x2018, 0x2019, 0x201C, 0x201D, 0x2022, 0x2013, 0x2014,
      0xFFFD, 0x2122, 0x0459, 0x203A, 0x045A, 0x045C, 0x045B, 0x045F,
      0x00A0, 0x040E, 0x045E, 0x0408, 0x00A4, 0x0490, 0x00A6, 0x00A7,
      0x0401, 0x00A9, 0x0404, 0x00AB, 0x00AC, 0x00AD, 0x00AE, 0x0407,
      0x00B0, 0x00B1, 0x0406, 0x0456, 0x0491, 0x00B5, 0x00B6, 0x00B7,
      0x0451, 0x2116, 0x0454, 0x00BB, 0x0458, 0x0405, 0x0455, 0x0457,
      0x0410, 0x0411, 0x0412, 0x0413, 0x0414, 0x0415, 0x0416, 0x0417,
      0x0418, 0x0419, 0x041A, 0x041B, 0x041C, 0x041D, 0x041E, 0x041F,
      0x0420, 0x0421, 0x0422, 0x0423, 0x0424, 0x0425, 0x0426, 0x0427,
      0x0428, 0x0429, 0x042A, 0x042B, 0x042C, 0x042D, 0x042E, 0x042F,
      0x0430, 0x0431, 0x0432, 0x0433, 0x0434, 0x0435, 0x0436, 0x0437,
      0x0438, 0x0439, 0x043A, 0x043B, 0x043C, 0x043D, 0x043E, 0x043F,
      0x0440, 0x0441, 0x0442, 0x0443, 0x0444, 0x0445, 0x0446, 0x0447,
      0x0448, 0x0449, 0x044A, 0x044B, 0x044C, 0x044D, 0x044E, 0x044F]"

definition windows1251_char :: "byte \<Rightarrow> codeunit" where
  "windows1251_char b = (if b < 0x80 then ucast b else windows1251_chars ! (unat b - 0x80))"

definition iconv_decode_windows1251 :: "byte list \<Rightarrow> jsstring" where
  "iconv_decode_windows1251 buffer = map windows1251_char buffer"

section \<open>\<^verbatim>\<open>detectEncoding\<close>\<close>

text \<open>
  The two regular expressions of the source have no \<^verbatim>\<open>u\<close> flag, so they test code units:
  \<^verbatim>\<open>/[\<dots>]/\<close> with the two ranges U+0410..U+042F and U+0430..U+044F, and the
  one-character pattern U+FFFD.
\<close>

definition test_cyrillic :: "jsstring \<Rightarrow> bool" where
  "test_cyrillic s =
     list_ex (\<lambda>c. (0x0410 \<le> c \<and> c \<le> 0x042F) \<or> (0x0430 \<le> c \<and> c \<le> 0x044F)) s"

definition test_replacement :: "jsstring \<Rightarrow> bool" where
  "test_replacement s = list_ex (\<lambda>c. c = 0xFFFD) s"

text \<open>The body of \<^verbatim>\<open>detectEncoding\<close> once the file has been read (the inner \<^verbatim>\<open>try\<close>
  block around the UTF-8 test catches nothing that the decoder can raise).\<close>

definition detectEncoding_buffer :: "byte list \<Rightarrow> encoding_label" where
  "detectEncoding_buffer buffer =
     (let utf8Decoded = toString_utf8 buffer in
      if test_cyrillic utf8Decoded \<and> \<not> test_replacement utf8Decoded then Utf8
      else
        let windows1251Decoded = iconv_decode_windows1251 buffer in
        if test_cyrillic windows1251Decoded \<and> \<not> test_replacement windows1251Decoded
        then Windows1251
        else Unknown)"

text \<open>
  What the specification calls a Cyrillic alphabetic character, read as it is written: a
  letter of the Russian alphabet, which has the 32 letters of each range above and also
  U+0401 and U+0451 (the letter io, upper and lower case). This definition follows the
  specification's words and is only compared with \<^const>\<open>test_cyrillic\<close>.
\<close>

definition russian_letter :: "codeunit \<Rightarrow> bool" where
  "russian_letter c \<longleftrightarrow> c = 0x0401 \<or> (0x0410 \<le> c \<and> c \<le> 0x044F) \<or> c = 0x0451"

definition contains_russian_letter :: "jsstring \<Rightarrow> bool" where
  "contains_russian_letter s = list_ex russian_letter s"

section \<open>Files, failures and the journal of a command\<close>

text \<open>
  The file system a command sees: a path has no file, or a file with its bytes and whether
  the process may read and write it. A command's effects are recorded in a journal.
\<close>

datatype io_error = ENOENT | EACCES

record disk_file =
  content :: "byte list"
  readable :: bool
  writable :: bool

type_synonym filesystem = "path \<Rightarrow> disk_file option"

datatype error = IOFailure io_error | EncodingNotRecognized encoding_label

datatype io_event =
    ReadFile path
  | CreateReadStream path
  | CreateWriteStream path
  | Written path encoding_label "jsstring list"

text \<open>An action yields the events it caused and an error (a thrown exception or a rejected
  promise) or a value; \<open>io_bind\<close> is \<^verbatim>\<open>await\<close> followed by the rest of the function.\<close>

type_synonym 'a io = "io_event list \<times> (error + 'a)"

definition io_return :: "'a \<Rightarrow> 'a io" where
  "io_return x = ([], Inr x)"

definition io_bind :: "'a io \<Rightarrow> ('a \<Rightarrow> 'b io) \<Rightarrow> 'b io" where
  "io_bind m f =
     (case m of
        (j, Inl e) \<Rightarrow> (j, Inl e)
      | (j, Inr x) \<Rightarrow> (case f x of (j', r) \<Rightarrow> (j @ j', r)))"

definition readFile :: "filesystem \<Rightarrow> path \<Rightarrow> byte list io" where
  "readFile fs filePath =
     ([ReadFile filePath],
      case fs filePath of
        None \<Rightarrow> Inl (IOFailure ENOENT)
      | Some f \<Rightarrow> if readable f then Inr (content f) else Inl (IOFailure EACCES))"

text \<open>\<^verbatim>\<open>detectEncoding\<close>: the outer \<^verbatim>\<open>catch\<close> turns every failure into \<^verbatim>\<open>'unknown'\<close>.\<close>

definition detectEncoding :: "filesystem \<Rightarrow> path \<Rightarrow> encoding_label io" where
  "detectEncoding fs filePath =
     (case readFile fs filePath of
        (j, Inl e) \<Rightarrow> (j, Inr Unknown)
      | (j, Inr buffer) \<Rightarrow> (j, Inr (detectEncoding_buffer buffer)))"

section \<open>\<^verbatim>\<open>readFileLines\<close> and \<^verbatim>\<open>writeFileLines\<close>\<close>

text \<open>
  \<^verbatim>\<open>iconv.decodeStream\<close> knows \<^verbatim>\<open>'utf-8'\<close> and \<^verbatim>\<open>'windows-1251'\<close> and throws on
  \<^verbatim>\<open>'unknown'\<close>; its UTF-8 decoder drops a leading byte order mark.
\<close>

definition stripBOM :: "jsstring \<Rightarrow> jsstring" where
  "stripBOM s = (case s of [] \<Rightarrow> [] | c # cs \<Rightarrow> if c = 0xFEFF then cs else c # cs)"

definition iconv_decode :: "encoding_label \<Rightarrow> byte list \<Rightarrow> error + jsstring" where
  "iconv_decode encoding buffer =
     (case encoding of
        Utf8 \<Rightarrow> Inr (stripBOM (toString_utf8 buffer))
      | Windows1251 \<Rightarrow> Inr (iconv_decode_windows1251 buffer)
      | Unknown \<Rightarrow> Inl (EncodingNotRecognized Unknown))"

text \<open>
  \<^verbatim>\<open>readline\<close> ends a line at LF, at CR (a CR LF pair counts once, whatever the delay
  between the two, since \<^verbatim>\<open>crlfDelay\<close> is infinite), at U+2028 and at U+2029; what is left
  at the end of the input is a last line when it is not empty. The flag says that the
  previous code unit was a CR; the accumulator holds the current line reversed.
\<close>

fun readline_lines :: "bool \<Rightarrow> jsstring \<Rightarrow> jsstring \<Rightarrow> jsstring list" where
  "readline_lines sawReturn cur [] = (if cur = [] then [] else [rev cur])"
| "readline_lines sawReturn cur (c # cs) =
     (if c = 0x000A \<and> sawReturn then readline_lines False cur cs
      else if c = 0x000D then rev cur # readline_lines True [] cs
      else if c = 0x000A \<or> c = 0x2028 \<or> c = 0x2029 then rev cur # readline_lines False [] cs
      else readline_lines False (c # cur) cs)"

text \<open>\<^verbatim>\<open>line.trim()\<close> is the empty string, hence falsy, exactly when every code unit of the
  line is ECMAScript white space or a line terminator.\<close>

definition js_whitespace :: "codeunit \<Rightarrow> bool" where
  "js_whitespace c \<longleftrightarrow>
     c = 0x0009 \<or> c = 0x000A \<or> c = 0x000B \<or> c = 0x000C \<or> c = 0x000D \<or> c = 0x0020 \<or>
     c = 0x00A0 \<or> c = 0x1680 \<or> (0x2000 \<le> c \<and> c \<le> 0x200A) \<or> c = 0x2028 \<or> c = 0x2029 \<or>
     c = 0x202F \<or> c = 0x205F \<or> c = 0x3000 \<or> c = 0xFEFF"

definition trim_truthy :: "jsstring \<Rightarrow> bool" where
  "trim_truthy line = list_ex (\<lambda>c. \<not> js_whitespace c) line"

text \<open>
  \<^verbatim>\<open>readFileLines\<close> creates the read stream (which opens the file lazily), then the decoder,
  which is where an unrecognised encoding throws, and then consumes the stream, which is
  where a file that cannot be read fails.
\<close>

definition readFileLines :: "filesystem \<Rightarrow> path \<Rightarrow> encoding_label \<Rightarrow> jsstring list io" where
  "readFileLines fs filePath encoding =
     ([CreateReadStream filePath],
      if encoding = Unknown then Inl (EncodingNotRecognized encoding)
      else
        case fs filePath of
          None \<Rightarrow> Inl (IOFailure ENOENT)
        | Some f \<Rightarrow>
            if \<not> readable f then Inl (IOFailure EACCES)
            else
              case iconv_decode encoding (content f) of
                Inl e \<Rightarrow> Inl e
              | Inr text \<Rightarrow> Inr (filter trim_truthy (readline_lines False [] text)))"

text \<open>
  \<^verbatim>\<open>writeFileLines\<close> creates the write stream first, then the encoder, then pipes the lines
  through; any failure is logged and thrown again.
\<close>

definition writeFileLines :: "filesystem \<Rightarrow> path \<Rightarrow> jsstring list \<Rightarrow> encoding_label \<Rightarrow> unit io" where
  "writeFileLines fs filePath lines encoding =
     (if encoding = Unknown then ([CreateWriteStream filePath], Inl (EncodingNotRecognized encoding))
      else
        case fs filePath of
          Some f \<Rightarrow>
            if writable f
            then ([CreateWriteStream filePath, Written filePath encoding lines], Inr ())
            else ([CreateWriteStream filePath], Inl (IOFailure EACCES))
        | None \<Rightarrow> ([CreateWriteStream filePath, Written filePath encoding lines], Inr ()))"

section \<open>The JavaScript \<^verbatim>\<open>Set\<close> and \<^verbatim>\<open>Array.prototype.sort\<close>\<close>

text \<open>A \<^verbatim>\<open>Set\<close> of strings is the list of its members in insertion order; adding a member
  that is already there changes nothing.\<close>

definition Set_has :: "jsstring list \<Rightarrow> jsstring \<Rightarrow> bool" where
  "Set_has s x \<longleftrightarrow> x \<in> set s"

definition Set_add :: "jsstring list \<Rightarrow> jsstring \<Rightarrow> jsstring list" where
  "Set_add s x = (if Set_has s x then s else s @ [x])"

definition new_Set :: "jsstring list \<Rightarrow> jsstring list" where
  "new_Set xs = foldl Set_add [] xs"

text \<open>
  \<^verbatim>\<open>sort\<close> is stable, and for a consistent comparator its result is determined: the stable
  sorted arrangement, which insertion from the right computes. An element goes before the
  first one it does not compare greater than.
\<close>

fun sort_insert :: "comparator \<Rightarrow> jsstring \<Rightarrow> jsstring list \<Rightarrow> jsstring list" where
  "sort_insert cmp x [] = [x]"
| "sort_insert cmp x (y # ys) =
     (if cmp x y \<le> 0 then x # y # ys else y # sort_insert cmp x ys)"

definition Array_sort :: "comparator \<Rightarrow> jsstring list \<Rightarrow> jsstring list" where
  "Array_sort cmp xs = foldr (sort_insert cmp) xs []"

text \<open>A consistent comparator, as \<^verbatim>\<open>sort\<close> requires it: the sign of \<open>cmp a b\<close> is
  opposite to the sign of \<open>cmp b a\<close>, and "not greater" is transitive.\<close>

definition consistent_comparator :: "comparator \<Rightarrow> bool" where
  "consistent_comparator cmp \<longleftrightarrow>
     (\<forall>a b. (cmp a b < 0) = (0 < cmp b a)) \<and>
     (\<forall>a b c. cmp a b \<le> 0 \<longrightarrow> cmp b c \<le> 0 \<longrightarrow> cmp a c \<le> 0)"

definition collated :: "comparator \<Rightarrow> jsstring list \<Rightarrow> bool" where
  "collated cmp xs = sorted_wrt (\<lambda>a b. cmp a b \<le> 0) xs"

text \<open>A comparator to run the operations on: code units compared from left to right, a proper
  prefix first. On lower-case Russian words without the letter io this is their alphabetical
  order.\<close>

fun codeunit_compare :: comparator where
  "codeunit_compare [] [] = 0"
| "codeunit_compare [] (y # ys) = -1"
| "codeunit_compare (x # xs) [] = 1"
| "codeunit_compare (x # xs) (y # ys) =
     (if x < y then -1 else if y < x then 1 else codeunit_compare xs ys)"

section \<open>The three commands\<close>

subsection \<open>\<^verbatim>\<open>add\<close>\<close>

text \<open>The loop over the new lines, with the set and the counter it updates.\<close>

fun add_loop :: "jsstring list \<Rightarrow> int \<Rightarrow> jsstring list \<Rightarrow> jsstring list \<times> int" where
  "add_loop wordSet addedCount [] = (wordSet, addedCount)"
| "add_loop wordSet addedCount (word # rest) =
     (if \<not> Set_has wordSet word then add_loop (Set_add wordSet word) (addedCount + 1) rest
      else add_loop wordSet addedCount rest)"

record add_report =
  add_sortedWords :: "jsstring list"
  addedCount :: int

definition merge_lines :: "comparator \<Rightarrow> jsstring list \<Rightarrow> jsstring list \<Rightarrow> add_report" where
  "merge_lines cmp dictLines newLines =
     (let wordSet = new_Set dictLines in
      case add_loop wordSet 0 newLines of
        (wordSet', added) \<Rightarrow> \<lparr>add_sortedWords = Array_sort cmp wordSet', addedCount = added\<rparr>)"

definition addWords :: "comparator \<Rightarrow> filesystem \<Rightarrow> path \<Rightarrow> path \<Rightarrow> add_report io" where
  "addWords cmp fs dictPath newWordsPath =
     io_bind (detectEncoding fs dictPath) (\<lambda>dictEncoding.
     io_bind (detectEncoding fs newWordsPath) (\<lambda>newWordsEncoding.
     io_bind (readFileLines fs dictPath dictEncoding) (\<lambda>dictLines.
     io_bind (readFileLines fs newWordsPath newWordsEncoding) (\<lambda>newLines.
     let report = merge_lines cmp dictLines newLines in
     io_bind (writeFileLines fs dictPath (add_sortedWords report) dictEncoding) (\<lambda>_.
     io_return report)))))"

subsection \<open>\<^verbatim>\<open>delete\<close>\<close>

record delete_report =
  delete_result :: "jsstring list"
  deletedCount :: int

definition subtract_lines :: "jsstring list \<Rightarrow> jsstring list \<Rightarrow> delete_report" where
  "subtract_lines dictLines deleteLines =
     (let deleteSet = new_Set deleteLines;
          result = filter (\<lambda>word. \<not> Set_has deleteSet word) dictLines
      in \<lparr>delete_result = result,
          deletedCount = int (length dictLines) - int (length result)\<rparr>)"

definition deleteWords :: "filesystem \<Rightarrow> path \<Rightarrow> path \<Rightarrow> delete_report io" where
  "deleteWords fs dictPath wordsToDeletePath =
     io_bind (detectEncoding fs dictPath) (\<lambda>dictEncoding.
     io_bind (detectEncoding fs wordsToDeletePath) (\<lambda>deleteEncoding.
     io_bind (readFileLines fs dictPath dictEncoding) (\<lambda>dictLines.
     io_bind (readFileLines fs wordsToDeletePath deleteEncoding) (\<lambda>deleteLines.
     let report = subtract_lines dictLines deleteLines in
     io_bind (writeFileLines fs dictPath (delete_result report) dictEncoding) (\<lambda>_.
     io_return report)))))"

subsection \<open>\<^verbatim>\<open>sort\<close>\<close>

record sort_report =
  sort_sortedWords :: "jsstring list"
  duplicatesRemoved :: int

definition normalize_lines :: "comparator \<Rightarrow> jsstring list \<Rightarrow> sort_report" where
  "normalize_lines cmp lines =
     (let uniqueWords = new_Set lines;
          sortedWords = Array_sort cmp uniqueWords
      in \<lparr>sort_sortedWords = sortedWords,
          duplicatesRemoved = int (length lines) - int (length sortedWords)\<rparr>)"

definition sortDictionary :: "comparator \<Rightarrow> filesystem \<Rightarrow> path \<Rightarrow> sort_report io" where
  "sortDictionary cmp fs dictPath =
     io_bind (detectEncoding fs dictPath) (\<lambda>encoding.
     io_bind (readFileLines fs dictPath encoding) (\<lambda>lines.
     let report = normalize_lines cmp lines in
     io_bind (writeFileLines fs dictPath (sort_sortedWords report) encoding) (\<lambda>_.
     io_return report)))"

text \<open>The write events of a journal.\<close>

definition is_write :: "io_event \<Rightarrow> bool" where
  "is_write ev = (case ev of CreateWriteStream p \<Rightarrow> True | Written p enc ls \<Rightarrow> True | _ \<Rightarrow> False)"

definition writes_last :: "io_event list \<Rightarrow> bool" where
  "writes_last j = list_all is_write (dropWhile (\<lambda>ev. \<not> is_write ev) j)"

subsection \<open>Example files\<close>

text \<open>
  A dictionary in Windows-1251 with the lines \<^verbatim>\<open>kot\<close> and \<^verbatim>\<open>lisa\<close> (in Cyrillic letters),
  a list of new words in UTF-8 with the lines \<^verbatim>\<open>kot\<close> and \<^verbatim>\<open>dom\<close>, a file of ASCII digits,
  a UTF-8 dictionary that the process may not read, and no other file.
\<close>

definition plain_file :: "byte list \<Rightarrow> disk_file" where
  "plain_file bytes = \<lparr>content = bytes, readable = True, writable = True\<rparr>"

definition no_files :: filesystem where
  "no_files = (\<lambda>p. None)"

definition example_fs :: filesystem where
  "example_fs =
     no_files(''dict.txt'' \<mapsto> plain_file [0xEA, 0xEE, 0xF2, 0x0A, 0xEB, 0xE8, 0xF1, 0xE0, 0x0A],
              ''new.txt'' \<mapsto> plain_file [0xD0, 0xBA, 0xD0, 0xBE, 0xD1, 0x82, 0x0D, 0x0A,
                                          0xD0, 0xB4, 0xD0, 0xBE, 0xD0, 0xBC, 0x0A],
              ''digits.txt'' \<mapsto> plain_file [0x31, 0x32, 0x0A, 0x33, 0x0A],
              ''locked.txt'' \<mapsto> \<lparr>content = [0xD0, 0xBA, 0xD0, 0xBE, 0xD1, 0x82, 0x0A],
                                       readable = False, writable = True\<rparr>)"

section \<open>Evaluation on concrete inputs\<close>

lemmas decode_defs = toString_utf8_def utf8_lead_def utf16_units_def
  iconv_decode_windows1251_def windows1251_char_def windows1251_chars_def
  test_cyrillic_def test_replacement_def detectEncoding_buffer_def

lemmas io_defs = io_bind_def io_return_def readFile_def detectEncoding_def readFileLines_def
  writeFileLines_def iconv_decode_def stripBOM_def trim_truthy_def js_whitespace_def

lemmas example_defs = example_fs_def no_files_def plain_file_def

section \<open>Decoding ASCII\<close>

lemma byte_ascii_le: "b < (0x80::byte) \<Longrightarrow> b \<le> 0x7F"
  by (simp add: word_less_nat_alt word_le_nat_alt)

lemma utf8_run_ascii: "list_all (\<lambda>b. b < 0x80) bs \<Longrightarrow> utf8_run Idle bs = map unat bs"
proof (induction bs)
  case Nil
  then show ?case by simp
next
  case (Cons b bs)
  then have "b \<le> 0x7F" by (simp add: byte_ascii_le)
  then show ?case using Cons by (simp add: utf8_lead_def)
qed


lemma unat_ucast_byte: "unat (ucast (b::byte) :: codeunit) = unat b"
proof -
  have "unat b < 2 ^ 8" using unsigned_less [of b] by simp
  then have "unat b < 2 ^ 16" by simp
  then show ?thesis by (simp add: unsigned_ucast_eq take_bit_nat_eq_self)
qed

lemma utf16_units_byte: "utf16_units (unat (b::byte)) = [ucast b]"
proof -
  have "unat b < 2 ^ 8" using unsigned_less [of b] by simp
  then show ?thesis by (simp add: utf16_units_def)
qed

lemma ascii_unit_plain:
  "b < (0x80::byte) \<Longrightarrow> \<not> 0x0410 \<le> (ucast b :: codeunit) \<and> \<not> 0x0430 \<le> (ucast b :: codeunit) \<and>
     (ucast b :: codeunit) \<noteq> 0xFFFD"
  by (auto simp: word_less_nat_alt word_le_nat_alt word_unat_eq_iff unat_ucast_byte)

lemma toString_utf8_ascii:
  "list_all (\<lambda>b. b < 0x80) bs \<Longrightarrow> toString_utf8 bs = map ucast bs"
  by (simp add: toString_utf8_def utf8_run_ascii utf16_units_byte o_def concat_map_singleton)

lemma windows1251_ascii:
  "list_all (\<lambda>b. b < 0x80) bs \<Longrightarrow> iconv_decode_windows1251 bs = map ucast bs"
  by (induction bs) (simp_all add: iconv_decode_windows1251_def windows1251_char_def)

lemma cyrillic_ranges_adjacent:
  "(0x0410 \<le> c \<and> c \<le> 0x042F) \<or> (0x0430 \<le> c \<and> c \<le> 0x044F) \<longleftrightarrow> 0x0410 \<le> c \<and> c \<le> 0x044F"
  for c :: codeunit
  by (simp add: word_le_nat_alt) arith

lemma test_cyrillic_set: "test_cyrillic s \<longleftrightarrow> (\<exists>c\<in>set s. 0x0410 \<le> c \<and> c \<le> 0x044F)"
  by (simp add: test_cyrillic_def list_ex_iff cyrillic_ranges_adjacent)

lemma test_replacement_set: "test_replacement s \<longleftrightarrow> 0xFFFD \<in> set s"
  by (auto simp: test_replacement_def list_ex_iff)

lemma ascii_text_plain:
  "list_all (\<lambda>b. b < 0x80) bs \<Longrightarrow> \<not> test_cyrillic (map ucast bs)" for bs :: "byte list"
  using ascii_unit_plain by (auto simp: test_cyrillic_set list_all_iff)

lemma detect_ascii: "list_all (\<lambda>b. b < 0x80) bs \<Longrightarrow> detectEncoding_buffer bs = Unknown"
  by (simp add: detectEncoding_buffer_def toString_utf8_ascii windows1251_ascii ascii_text_plain)

section \<open>The set and the sort\<close>

lemma Set_has_iff: "Set_has s x \<longleftrightarrow> x \<in> set s"
  by (simp add: Set_has_def)

lemma set_Set_add: "set (Set_add s x) = insert x (set s)"
  by (auto simp: Set_add_def Set_has_iff)

lemma distinct_Set_add: "distinct s \<Longrightarrow> distinct (Set_add s x)"
  by (simp add: Set_add_def Set_has_iff)

lemma set_foldl_Set_add: "set (foldl Set_add acc xs) = set acc \<union> set xs"
  by (induction xs arbitrary: acc) (auto simp: set_Set_add)

lemma distinct_foldl_Set_add: "distinct acc \<Longrightarrow> distinct (foldl Set_add acc xs)"
  by (induction xs arbitrary: acc) (simp_all add: distinct_Set_add)

lemma foldl_Set_add_distinct: "distinct (acc @ xs) \<Longrightarrow> foldl Set_add acc xs = acc @ xs"
proof (induction xs arbitrary: acc)
  case Nil
  then show ?case by simp
next
  case (Cons x xs)
  then have "Set_add acc x = acc @ [x]" by (simp add: Set_add_def Set_has_iff)
  moreover have "distinct ((acc @ [x]) @ xs)" using Cons.prems by simp
  ultimately show ?case using Cons.IH [of "acc @ [x]"] by simp
qed

lemma set_new_Set: "set (new_Set xs) = set xs"
  by (simp add: new_Set_def set_foldl_Set_add)

lemma distinct_new_Set: "distinct (new_Set xs)"
  by (simp add: new_Set_def distinct_foldl_Set_add)

lemma new_Set_distinct: "distinct xs \<Longrightarrow> new_Set xs = xs"
  using foldl_Set_add_distinct [of "[]" xs] by (simp add: new_Set_def)

lemma length_new_Set: "length (new_Set xs) = card (set xs)"
  using distinct_card [OF distinct_new_Set, of xs] by (simp add: set_new_Set)

lemma length_new_Set_le: "length (new_Set xs) \<le> length xs"
  by (simp add: length_new_Set card_length)

lemma add_loop_set: "add_loop ws n new = (ws', n') \<Longrightarrow> set ws' = set ws \<union> set new"
  by (induction ws n new rule: add_loop.induct) (auto simp: set_Set_add Set_has_iff split: if_splits)

lemma add_loop_distinct: "add_loop ws n new = (ws', n') \<Longrightarrow> distinct ws \<Longrightarrow> distinct ws'"
  by (induction ws n new rule: add_loop.induct) (auto simp: distinct_Set_add split: if_splits)

lemma add_loop_count: "add_loop ws n new = (ws', n') \<Longrightarrow> n' = n + int (card (set new - set ws))"
proof (induction ws n new rule: add_loop.induct)
  case (1 wordSet addedCount)
  then show ?case by simp
next
  case (2 wordSet addedCount word rest)
  show ?case
  proof (cases "word \<in> set wordSet")
    case True
    then have "set (word # rest) - set wordSet = set rest - set wordSet" by auto
    then show ?thesis using 2 True by (simp add: Set_has_iff)
  next
    case False
    have "set (word # rest) - set wordSet = insert word (set rest - insert word (set wordSet))"
      using False by auto
    moreover have "card (insert word (set rest - insert word (set wordSet))) =
        Suc (card (set rest - insert word (set wordSet)))"
      by (rule card_insert_disjoint) simp_all
    ultimately have "card (set (word # rest) - set wordSet) =
        Suc (card (set rest - insert word (set wordSet)))"
      by simp
    then show ?thesis using 2 False by (simp add: Set_has_iff set_Set_add)
  qed
qed

lemma mset_sort_insert: "mset (sort_insert cmp x ys) = add_mset x (mset ys)"
  by (induction ys) simp_all

lemma Array_sort_Cons: "Array_sort cmp (x # xs) = sort_insert cmp x (Array_sort cmp xs)"
  by (simp add: Array_sort_def)

lemma mset_Array_sort: "mset (Array_sort cmp xs) = mset xs"
  by (induction xs) (simp_all add: Array_sort_Cons mset_sort_insert, simp add: Array_sort_def)

lemma set_Array_sort: "set (Array_sort cmp xs) = set xs"
  using mset_Array_sort [of cmp xs] by (metis set_mset_mset)

lemma length_Array_sort: "length (Array_sort cmp xs) = length xs"
  using mset_Array_sort [of cmp xs] by (metis size_mset)

lemma distinct_Array_sort: "distinct (Array_sort cmp xs) = distinct xs"
  using mset_Array_sort [of cmp xs] by (metis mset_eq_imp_distinct_iff)

lemma set_sort_insert: "set (sort_insert cmp x ys) = insert x (set ys)"
  using mset_sort_insert [of cmp x ys] by (metis set_mset_mset set_mset_add_mset_insert)

lemma comparator_total: "consistent_comparator cmp \<Longrightarrow> \<not> cmp a b \<le> 0 \<Longrightarrow> cmp b a \<le> 0"
  unfolding consistent_comparator_def
  by (metis linorder_not_le order_less_imp_le)

lemma comparator_trans:
  "consistent_comparator cmp \<Longrightarrow> cmp a b \<le> 0 \<Longrightarrow> cmp b c \<le> 0 \<Longrightarrow> cmp a c \<le> 0"
  unfolding consistent_comparator_def by blast

lemma collated_sort_insert:
  assumes "consistent_comparator cmp" and "collated cmp ys"
  shows "collated cmp (sort_insert cmp x ys)"
  using assms(2)
proof (induction ys)
  case Nil
  then show ?case by (simp add: collated_def)
next
  case (Cons y ys)
  show ?case
  proof (cases "cmp x y \<le> 0")
    case True
    have "\<forall>z\<in>set ys. cmp x z \<le> 0"
      using Cons.prems True comparator_trans [OF assms(1)] by (auto simp: collated_def)
    then show ?thesis using Cons.prems True by (simp add: collated_def)
  next
    case False
    then have "cmp y x \<le> 0" by (rule comparator_total [OF assms(1)])
    moreover have "collated cmp (sort_insert cmp x ys)"
      using Cons by (simp add: collated_def)
    ultimately show ?thesis
      using Cons.prems False by (auto simp: collated_def set_sort_insert)
  qed
qed

lemma collated_Array_sort: "consistent_comparator cmp \<Longrightarrow> collated cmp (Array_sort cmp xs)"
proof (induction xs)
  case Nil
  then show ?case by (simp add: Array_sort_def collated_def)
next
  case (Cons x xs)
  then show ?case by (simp add: Array_sort_Cons collated_sort_insert)
qed

lemma Array_sort_collated: "collated cmp xs \<Longrightarrow> Array_sort cmp xs = xs"
proof (induction xs)
  case Nil
  then show ?case by (simp add: Array_sort_def)
next
  case (Cons x xs)
  then have "Array_sort cmp xs = xs" by (simp add: collated_def)
  then show ?case using Cons.prems by (cases xs) (simp_all add: Array_sort_Cons collated_def)
qed

subsection \<open>The example comparator is consistent\<close>

lemma codeunit_compare_sign: "(codeunit_compare a b < 0) = (0 < codeunit_compare b a)"
  by (induction a b rule: codeunit_compare.induct) auto

lemma codeunit_compare_trans:
  "codeunit_compare a b \<le> 0 \<Longrightarrow> codeunit_compare b c \<le> 0 \<Longrightarrow> codeunit_compare a c \<le> 0"
proof (induction a b arbitrary: c rule: codeunit_compare.induct)
  case 1
  then show ?case by simp
next
  case (2 y ys)
  then show ?case by (cases c) simp_all
next
  case (3 x xs)
  then show ?case by simp
next
  case (4 x xs y ys)
  then show ?case
  proof (cases c)
    case Nil
    with 4 show ?thesis by simp
  next
    case (Cons z zs)
    with 4 show ?thesis by (auto split: if_splits)
  qed
qed

lemma codeunit_compare_consistent: "consistent_comparator codeunit_compare"
  unfolding consistent_comparator_def
  using codeunit_compare_sign codeunit_compare_trans by blast

section \<open>Journals of the commands\<close>

lemma detectEncoding_total: "\<exists>l. detectEncoding fs p = ([ReadFile p], Inr l)"
  by (simp add: detectEncoding_def readFile_def split: option.split)

lemma detectEncoding_shape:
  obtains l where "detectEncoding fs p = ([ReadFile p], Inr l)"
  using detectEncoding_total by blast

lemma readFileLines_shape:
  obtains r where "readFileLines fs p enc = ([CreateReadStream p], r)"
  by (simp add: readFileLines_def)

lemma readFileLines_Unknown:
  "readFileLines fs p Unknown = ([CreateReadStream p], Inl (EncodingNotRecognized Unknown))"
  by (simp add: readFileLines_def)

lemma writeFileLines_cases:
  "(\<exists>e. writeFileLines fs p ls enc = ([CreateWriteStream p], Inl e)) \<or>
   writeFileLines fs p ls enc = ([CreateWriteStream p, Written p enc ls], Inr ())"
  by (simp add: writeFileLines_def split: option.split)

lemma writeFileLines_shape:
  obtains (failed) e where "writeFileLines fs p ls enc = ([CreateWriteStream p], Inl e)"
  | (succeeded) "writeFileLines fs p ls enc = ([CreateWriteStream p, Written p enc ls], Inr ())"
  using writeFileLines_cases [of fs p ls enc] by blast

text \<open>The journal and the outcome of \<^verbatim>\<open>add\<close>, by the step at which it stops.\<close>

lemma addWords_shape:
  assumes d: "detectEncoding fs dictPath = ([ReadFile dictPath], Inr ld)"
  obtains
    (dict_unread) e where
      "addWords cmp fs dictPath newWordsPath =
         ([ReadFile dictPath, ReadFile newWordsPath, CreateReadStream dictPath], Inl e)"
      "readFileLines fs dictPath ld = ([CreateReadStream dictPath], Inl e)"
  | (new_unread) e where
      "addWords cmp fs dictPath newWordsPath =
         ([ReadFile dictPath, ReadFile newWordsPath, CreateReadStream dictPath,
           CreateReadStream newWordsPath], Inl e)"
      "ld \<noteq> Unknown"
  | (write_failed) e where
      "addWords cmp fs dictPath newWordsPath =
         ([ReadFile dictPath, ReadFile newWordsPath, CreateReadStream dictPath,
           CreateReadStream newWordsPath, CreateWriteStream dictPath], Inl e)"
      "ld \<noteq> Unknown"
  | (written) report where
      "addWords cmp fs dictPath newWordsPath =
         ([ReadFile dictPath, ReadFile newWordsPath, CreateReadStream dictPath,
           CreateReadStream newWordsPath, CreateWriteStream dictPath,
           Written dictPath ld (add_sortedWords report)], Inr report)"
      "ld \<noteq> Unknown"
proof -
  obtain ln where n: "detectEncoding fs newWordsPath = ([ReadFile newWordsPath], Inr ln)"
    by (rule detectEncoding_shape)
  obtain r1 where r1: "readFileLines fs dictPath ld = ([CreateReadStream dictPath], r1)"
    by (rule readFileLines_shape)
  obtain r2 where r2: "readFileLines fs newWordsPath ln = ([CreateReadStream newWordsPath], r2)"
    by (rule readFileLines_shape)
  show thesis
  proof (cases r1)
    case (Inl e)
    then show thesis
      using dict_unread [of e] d n r1 by (simp add: addWords_def io_bind_def)
  next
    case r1_ok: (Inr dictLines)
    then have known: "ld \<noteq> Unknown"
      using r1 readFileLines_Unknown [of fs dictPath] by auto
    show thesis
    proof (cases r2)
      case (Inl e)
      then show thesis
        using new_unread [of e] known d n r1 r1_ok r2 by (simp add: addWords_def io_bind_def)
    next
      case r2_ok: (Inr newLines)
      let ?report = "merge_lines cmp dictLines newLines"
      show thesis
      proof (cases rule: writeFileLines_shape [of fs dictPath "add_sortedWords ?report" ld])
        case (failed e)
        then show thesis
          using write_failed [of e] known d n r1 r1_ok r2 r2_ok
          by (simp add: addWords_def io_bind_def Let_def)
      next
        case succeeded
        then show thesis
          using written [of ?report] known d n r1 r1_ok r2 r2_ok
          by (simp add: addWords_def io_bind_def io_return_def Let_def)
      qed
    qed
  qed
qed

text \<open>The journal and the outcome of \<^verbatim>\<open>delete\<close>, by the step at which it stops.\<close>

lemma deleteWords_shape:
  assumes d: "detectEncoding fs dictPath = ([ReadFile dictPath], Inr ld)"
  obtains
    (dict_unread) e where
      "deleteWords fs dictPath wordsToDeletePath =
         ([ReadFile dictPath, ReadFile wordsToDeletePath, CreateReadStream dictPath], Inl e)"
      "readFileLines fs dictPath ld = ([CreateReadStream dictPath], Inl e)"
  | (delete_unread) e where
      "deleteWords fs dictPath wordsToDeletePath =
         ([ReadFile dictPath, ReadFile wordsToDeletePath, CreateReadStream dictPath,
           CreateReadStream wordsToDeletePath], Inl e)"
      "ld \<noteq> Unknown"
  | (write_failed) e where
      "deleteWords fs dictPath wordsToDeletePath =
         ([ReadFile dictPath, ReadFile wordsToDeletePath, CreateReadStream dictPath,
           CreateReadStream wordsToDeletePath, CreateWriteStream dictPath], Inl e)"
      "ld \<noteq> Unknown"
  | (written) report where
      "deleteWords fs dictPath wordsToDeletePath =
         ([ReadFile dictPath, ReadFile wordsToDeletePath, CreateReadStream dictPath,
           CreateReadStream wordsToDeletePath, CreateWriteStream dictPath,
           Written dictPath ld (delete_result report)], Inr report)"
      "ld \<noteq> Unknown"
proof -
  obtain ln where n: "detectEncoding fs wordsToDeletePath = ([ReadFile wordsToDeletePath], Inr ln)"
    by (rule detectEncoding_shape)
  obtain r1 where r1: "readFileLines fs dictPath ld = ([CreateReadStream dictPath], r1)"
    by (rule readFileLines_shape)
  obtain r2 where r2: "readFileLines fs wordsToDeletePath ln = ([CreateReadStream wordsToDeletePath], r2)"
    by (rule readFileLines_shape)
  show thesis
  proof (cases r1)
    case (Inl e)
    then show thesis
      using dict_unread [of e] d n r1 by (simp add: deleteWords_def io_bind_def)
  next
    case r1_ok: (Inr dictLines)
    then have known: "ld \<noteq> Unknown"
      using r1 readFileLines_Unknown [of fs dictPath] by auto
    show thesis
    proof (cases r2)
      case (Inl e)
      then show thesis
        using delete_unread [of e] known d n r1 r1_ok r2 by (simp add: deleteWords_def io_bind_def)
    next
      case r2_ok: (Inr deleteLines)
      let ?report = "subtract_lines dictLines deleteLines"
      show thesis
      proof (cases rule: writeFileLines_shape [of fs dictPath "delete_result ?report" ld])
        case (failed e)
        then show thesis
          using write_failed [of e] known d n r1 r1_ok r2 r2_ok
          by (simp add: deleteWords_def io_bind_def Let_def)
      next
        case succeeded
        then show thesis
          using written [of ?report] known d n r1 r1_ok r2 r2_ok
          by (simp add: deleteWords_def io_bind_def io_return_def Let_def)
      qed
    qed
  qed
qed


text \<open>The journal and the outcome of \<^verbatim>\<open>sort\<close>, by the step at which it stops.\<close>

lemma sortDictionary_shape:
  assumes d: "detectEncoding fs dictPath = ([ReadFile dictPath], Inr ld)"
  obtains
    (dict_unread) e where
      "sortDictionary cmp fs dictPath = ([ReadFile dictPath, CreateReadStream dictPath], Inl e)"
      "readFileLines fs dictPath ld = ([CreateReadStream dictPath], Inl e)"
  | (write_failed) e where
      "sortDictionary cmp fs dictPath =
         ([ReadFile dictPath, CreateReadStream dictPath, CreateWriteStream dictPath], Inl e)"
      "ld \<noteq> Unknown"
  | (written) report where
      "sortDictionary cmp fs dictPath =
         ([ReadFile dictPath, CreateReadStream dictPath, CreateWriteStream dictPath,
           Written dictPath ld (sort_sortedWords report)], Inr report)"
      "ld \<noteq> Unknown"
proof -
  obtain r1 where r1: "readFileLines fs dictPath ld = ([CreateReadStream dictPath], r1)"
    by (rule readFileLines_shape)
  show thesis
  proof (cases r1)
    case (Inl e)
    then show thesis
      using dict_unread [of e] d r1 by (simp add: sortDictionary_def io_bind_def)
  next
    case r1_ok: (Inr lines)
    then have known: "ld \<noteq> Unknown"
      using r1 readFileLines_Unknown [of fs dictPath] by auto
    let ?report = "normalize_lines cmp lines"
    show thesis
    proof (cases rule: writeFileLines_shape [of fs dictPath "sort_sortedWords ?report" ld])
      case (failed e)
      then show thesis
        using write_failed [of e] known d r1 r1_ok
        by (simp add: sortDictionary_def io_bind_def Let_def)
    next
      case succeeded
      then show thesis
        using written [of ?report] known d r1 r1_ok
        by (simp add: sortDictionary_def io_bind_def io_return_def Let_def)
    qed
  qed
qed

lemma is_write_simps:
  "is_write (ReadFile p) = False" "is_write (CreateReadStream p) = False"
  "is_write (CreateWriteStream p) = True" "is_write (Written p enc ls) = True"
  by (simp_all add: is_write_def)

lemma addWords_Unknown:
  assumes "snd (detectEncoding fs dictPath) = Inr Unknown"
  shows "addWords cmp fs dictPath newWordsPath =
    ([ReadFile dictPath, ReadFile newWordsPath, CreateReadStream dictPath],
     Inl (EncodingNotRecognized Unknown))"
proof -
  obtain l where l: "detectEncoding fs dictPath = ([ReadFile dictPath], Inr l)"
    by (rule detectEncoding_shape)
  with assms have d: "detectEncoding fs dictPath = ([ReadFile dictPath], Inr Unknown)" by simp
  show ?thesis
    by (cases rule: addWords_shape [OF d, of cmp newWordsPath])
       (simp_all add: readFileLines_Unknown)
qed

lemma deleteWords_Unknown:
  assumes "snd (detectEncoding fs dictPath) = Inr Unknown"
  shows "deleteWords fs dictPath wordsToDeletePath =
    ([ReadFile dictPath, ReadFile wordsToDeletePath, CreateReadStream dictPath],
     Inl (EncodingNotRecognized Unknown))"
proof -
  obtain l where l: "detectEncoding fs dictPath = ([ReadFile dictPath], Inr l)"
    by (rule detectEncoding_shape)
  with assms have d: "detectEncoding fs dictPath = ([ReadFile dictPath], Inr Unknown)" by simp
  show ?thesis
    by (cases rule: deleteWords_shape [OF d, of wordsToDeletePath])
       (simp_all add: readFileLines_Unknown)
qed

lemma sortDictionary_Unknown:
  assumes "snd (detectEncoding fs dictPath) = Inr Unknown"
  shows "sortDictionary cmp fs dictPath =
    ([ReadFile dictPath, CreateReadStream dictPath], Inl (EncodingNotRecognized Unknown))"
proof -
  obtain l where l: "detectEncoding fs dictPath = ([ReadFile dictPath], Inr l)"
    by (rule detectEncoding_shape)
  with assms have d: "detectEncoding fs dictPath = ([ReadFile dictPath], Inr Unknown)" by simp
  show ?thesis
    by (cases rule: sortDictionary_shape [OF d, of cmp])
       (simp_all add: readFileLines_Unknown)
qed

lemma read_failure_gives_Unknown:
  "snd (readFile fs p) = Inl e \<Longrightarrow> detectEncoding fs p = ([ReadFile p], Inr Unknown)"
  by (auto simp: detectEncoding_def readFile_def split: option.splits if_splits)

subsection \<open>Runs on the example files\<close>

lemma ex_detect:
  "detectEncoding example_fs ''dict.txt'' = ([ReadFile ''dict.txt''], Inr Windows1251)"
  "detectEncoding example_fs ''new.txt'' = ([ReadFile ''new.txt''], Inr Utf8)"
  "detectEncoding example_fs ''digits.txt'' = ([ReadFile ''digits.txt''], Inr Unknown)"
  "detectEncoding example_fs ''missing.txt'' = ([ReadFile ''missing.txt''], Inr Unknown)"
  by (simp_all add: io_defs example_defs decode_defs)

lemma ex_read:
  "readFileLines example_fs ''dict.txt'' Windows1251 =
     ([CreateReadStream ''dict.txt''], Inr [[0x43A, 0x43E, 0x442], [0x43B, 0x438, 0x441, 0x430]])"
  "readFileLines example_fs ''new.txt'' Utf8 =
     ([CreateReadStream ''new.txt''], Inr [[0x43A, 0x43E, 0x442], [0x434, 0x43E, 0x43C]])"
  by (simp_all add: io_defs example_defs decode_defs)

lemmas engine_defs = merge_lines_def subtract_lines_def normalize_lines_def new_Set_def
  Set_add_def Set_has_def Array_sort_def

lemma ex_add:
  "addWords codeunit_compare example_fs ''dict.txt'' ''new.txt'' =
     ([ReadFile ''dict.txt'', ReadFile ''new.txt'', CreateReadStream ''dict.txt'',
       CreateReadStream ''new.txt'', CreateWriteStream ''dict.txt'',
       Written ''dict.txt'' Windows1251
         [[0x434, 0x43E, 0x43C], [0x43A, 0x43E, 0x442], [0x43B, 0x438, 0x441, 0x430]]],
      Inr \<lparr>add_sortedWords =
             [[0x434, 0x43E, 0x43C], [0x43A, 0x43E, 0x442], [0x43B, 0x438, 0x441, 0x430]],
           addedCount = 1\<rparr>)"
  unfolding addWords_def ex_detect io_bind_def
  apply (simp add: ex_read)
  apply (simp add: engine_defs)
  apply (simp add: writeFileLines_def example_defs io_return_def)
  done

lemma ex_sort_digits:
  "sortDictionary codeunit_compare example_fs ''digits.txt'' =
     ([ReadFile ''digits.txt'', CreateReadStream ''digits.txt''],
      Inl (EncodingNotRecognized Unknown))"
  unfolding sortDictionary_def ex_detect io_bind_def by (simp add: readFileLines_Unknown)

section \<open>Encoding detection\<close>

text \<open>
  Claim C1, as the specification states it: the label is \<^verbatim>\<open>utf8\<close> whenever the buffer, decoded
  as UTF-8, contains a Cyrillic alphabetic character and no replacement character. It fails on
  the two bytes D0 81, the UTF-8 form of the capital letter io (U+0401): the decoded text is
  that one Russian letter and has no U+FFFD, yet the label is not \<^verbatim>\<open>utf8\<close>, since the
  character class of the source stops short of this letter.
\<close>

theorem capital_io_buffer_counterexample:
  "contains_russian_letter (toString_utf8 [0xD0, 0x81]) \<and>
   \<not> test_replacement (toString_utf8 [0xD0, 0x81]) \<and>
   detectEncoding_buffer [0xD0, 0x81] \<noteq> Utf8"
  by (simp add: decode_defs russian_letter_def contains_russian_letter_def)

text \<open>
  Claim C1, amended: for every byte buffer the classification is an ordered, first-match
  procedure. If the buffer decoded as UTF-8 contains a code unit in U+0410..U+044F (the
  capital and small letters from A to YA of the source's character class, which has neither
  form of the letter io) and no U+FFFD, the label is \<^verbatim>\<open>utf8\<close>; otherwise, if the buffer decoded
  as Windows-1251 contains such a code unit and no U+FFFD, the label is \<^verbatim>\<open>windows1251\<close>;
  otherwise it is \<^verbatim>\<open>unknown\<close>. A buffer that meets both conditions is \<^verbatim>\<open>utf8\<close>, and an
  empty or pure-ASCII buffer is \<^verbatim>\<open>unknown\<close>.
\<close>

theorem detectEncoding_buffer_first_match:
  "detectEncoding_buffer buffer =
     (if (\<exists>c\<in>set (toString_utf8 buffer). 0x0410 \<le> c \<and> c \<le> 0x044F) \<and>
         0xFFFD \<notin> set (toString_utf8 buffer) then Utf8
      else if (\<exists>c\<in>set (iconv_decode_windows1251 buffer). 0x0410 \<le> c \<and> c \<le> 0x044F) \<and>
         0xFFFD \<notin> set (iconv_decode_windows1251 buffer) then Windows1251
      else Unknown) \<and>
   (test_cyrillic (toString_utf8 buffer) \<and> \<not> test_replacement (toString_utf8 buffer) \<and>
    test_cyrillic (iconv_decode_windows1251 buffer) \<and>
    \<not> test_replacement (iconv_decode_windows1251 buffer) \<longrightarrow> detectEncoding_buffer buffer = Utf8) \<and>
   (list_all (\<lambda>b. b < 0x80) buffer \<longrightarrow> detectEncoding_buffer buffer = Unknown) \<and>
   detectEncoding_buffer [] = Unknown"
proof (intro conjI impI)
  show "detectEncoding_buffer buffer =
     (if (\<exists>c\<in>set (toString_utf8 buffer). 0x0410 \<le> c \<and> c \<le> 0x044F) \<and>
         0xFFFD \<notin> set (toString_utf8 buffer) then Utf8
      else if (\<exists>c\<in>set (iconv_decode_windows1251 buffer). 0x0410 \<le> c \<and> c \<le> 0x044F) \<and>
         0xFFFD \<notin> set (iconv_decode_windows1251 buffer) then Windows1251
      else Unknown)"
    unfolding detectEncoding_buffer_def Let_def test_cyrillic_set test_replacement_set ..
next
  assume "test_cyrillic (toString_utf8 buffer) \<and> \<not> test_replacement (toString_utf8 buffer) \<and>
    test_cyrillic (iconv_decode_windows1251 buffer) \<and>
    \<not> test_replacement (iconv_decode_windows1251 buffer)"
  then show "detectEncoding_buffer buffer = Utf8"
    by (simp add: detectEncoding_buffer_def)
next
  assume "list_all (\<lambda>b. b < 0x80) buffer"
  then show "detectEncoding_buffer buffer = Unknown" by (rule detect_ascii)
next
  show "detectEncoding_buffer [] = Unknown"
    using detect_ascii [of "[]"] by simp
qed

text \<open>
  The amended claim C1 at work: ASCII digits are \<^verbatim>\<open>unknown\<close>; the two bytes D0 B4 meet both
  conditions and are \<^verbatim>\<open>utf8\<close>; the single byte C4 is \<^verbatim>\<open>windows1251\<close>.
\<close>

theorem detectEncoding_buffer_first_match_witness:
  "list_all (\<lambda>b. b < 0x80) [0x31, 0x32, 0x33 :: byte] \<and>
   detectEncoding_buffer [0x31, 0x32, 0x33] = Unknown \<and>
   test_cyrillic (toString_utf8 [0xD0, 0xB4]) \<and> \<not> test_replacement (toString_utf8 [0xD0, 0xB4]) \<and>
   test_cyrillic (iconv_decode_windows1251 [0xD0, 0xB4]) \<and>
   \<not> test_replacement (iconv_decode_windows1251 [0xD0, 0xB4]) \<and>
   detectEncoding_buffer [0xD0, 0xB4] = Utf8 \<and>
   detectEncoding_buffer [0xC4] = Windows1251"
  using detectEncoding_buffer_first_match [of "[0x31, 0x32, 0x33]"]
    detectEncoding_buffer_first_match [of "[0xD0, 0xB4]"]
    detectEncoding_buffer_first_match [of "[0xC4]"]
  by (simp add: decode_defs)

text \<open>
  Claim C10: there is a buffer of valid UTF-8 whose decoded text is a Cyrillic letter, the small
  letter io (U+0451, bytes D1 91), that is not classified as \<^verbatim>\<open>utf8\<close>: the decoded text has
  no replacement character, but the Cyrillic test of the source does not match it, and the
  buffer is labelled \<^verbatim>\<open>windows1251\<close>.
\<close>

theorem small_io_buffer_not_utf8:
  "\<exists>buffer. toString_utf8 buffer = [0x0451] \<and> russian_letter 0x0451 \<and>
     \<not> test_replacement (toString_utf8 buffer) \<and> \<not> test_cyrillic (toString_utf8 buffer) \<and>
     detectEncoding_buffer buffer \<noteq> Utf8 \<and> detectEncoding_buffer buffer = Windows1251"
  by (rule exI [of _ "[0xD1, 0x91]"]) (simp add: decode_defs russian_letter_def)

section \<open>The line-set operations\<close>

text \<open>
  Claim C2: for all line collections \<open>A\<close> and \<open>B\<close>, the members of the merged result are
  the lines of \<open>A\<close> together with those of \<open>B\<close>, each once; the added count is the number of
  distinct lines of \<open>B\<close> that are not in \<open>A\<close>, so that repeated or already present lines do not
  count; and both are the same for every rearrangement of \<open>B\<close>.
\<close>

theorem merge_lines_union:
  "set (add_sortedWords (merge_lines cmp A B)) = set A \<union> set B \<and>
   distinct (add_sortedWords (merge_lines cmp A B)) \<and>
   addedCount (merge_lines cmp A B) = int (card (set B - set A)) \<and>
   (\<forall>B'. mset B' = mset B \<longrightarrow>
      set (add_sortedWords (merge_lines cmp A B')) = set (add_sortedWords (merge_lines cmp A B)) \<and>
      addedCount (merge_lines cmp A B') = addedCount (merge_lines cmp A B))"
proof -
  have main: "set (add_sortedWords (merge_lines cmp A C)) = set A \<union> set C \<and>
      distinct (add_sortedWords (merge_lines cmp A C)) \<and>
      addedCount (merge_lines cmp A C) = int (card (set C - set A))" for C
  proof -
    obtain ws' n' where loop: "add_loop (new_Set A) 0 C = (ws', n')"
      by (cases "add_loop (new_Set A) 0 C")
    have "set ws' = set A \<union> set C"
      using add_loop_set [OF loop] by (simp add: set_new_Set)
    moreover have "distinct ws'"
      using add_loop_distinct [OF loop] by (simp add: distinct_new_Set)
    moreover have "n' = int (card (set C - set A))"
      using add_loop_count [OF loop] by (simp add: set_new_Set)
    ultimately show ?thesis
      using loop by (simp add: merge_lines_def set_Array_sort distinct_Array_sort)
  qed
  show ?thesis
  proof (intro conjI allI impI)
    fix B' :: "jsstring list"
    assume "mset B' = mset B"
    then have same: "set B' = set B" by (rule mset_eq_setD)
    show "set (add_sortedWords (merge_lines cmp A B')) = set (add_sortedWords (merge_lines cmp A B))"
      using main [of B'] main [of B] by (simp only: same)
    show "addedCount (merge_lines cmp A B') = addedCount (merge_lines cmp A B)"
      using main [of B'] main [of B] by (simp only: same)
  qed (simp_all only: main)
qed

text \<open>
  Claim C2 on the dictionary \<^verbatim>\<open>kot\<close>, \<^verbatim>\<open>pyos\<close> and the new words \<^verbatim>\<open>kot\<close>, \<^verbatim>\<open>lisa\<close>, in
  both orders: one word is added and the result has three lines.
\<close>

theorem merge_lines_union_witness:
  "mset [[0x43B, 0x438, 0x441, 0x430], [0x43A, 0x43E, 0x442 :: codeunit]] =
     mset [[0x43A, 0x43E, 0x442], [0x43B, 0x438, 0x441, 0x430]] \<and>
   merge_lines codeunit_compare [[0x43A, 0x43E, 0x442], [0x43F, 0x451, 0x441]]
       [[0x43A, 0x43E, 0x442], [0x43B, 0x438, 0x441, 0x430]] =
     \<lparr>add_sortedWords = [[0x43A, 0x43E, 0x442], [0x43B, 0x438, 0x441, 0x430], [0x43F, 0x451, 0x441]],
      addedCount = 1\<rparr> \<and>
   merge_lines codeunit_compare [[0x43A, 0x43E, 0x442], [0x43F, 0x451, 0x441]]
       [[0x43B, 0x438, 0x441, 0x430], [0x43A, 0x43E, 0x442]] =
     \<lparr>add_sortedWords = [[0x43A, 0x43E, 0x442], [0x43B, 0x438, 0x441, 0x430], [0x43F, 0x451, 0x441]],
      addedCount = 1\<rparr>"
  using merge_lines_union [of codeunit_compare "[[0x43A, 0x43E, 0x442], [0x43F, 0x451, 0x441]]"
      "[[0x43A, 0x43E, 0x442], [0x43B, 0x438, 0x441, 0x430]]"]
  by (simp add: engine_defs)

text \<open>
  Claim C3, as the specification states it: the output of Subtract has \<open>len(P)\<close> minus the
  cardinality of the set of lines of \<open>P\<close> that are in \<open>R\<close> many lines. It fails when a removed line
  occurs twice in \<open>P\<close>: both occurrences go, and the set has one element.
\<close>

theorem subtract_lines_repeated_counterexample:
  "length (delete_result (subtract_lines [[0x430], [0x430]] [[0x430]])) \<noteq>
   length [[0x430 :: codeunit], [0x430]] - card (set [[0x430 :: codeunit], [0x430]] \<inter> set [[0x430]])"
  by (simp add: engine_defs)

text \<open>
  Claim C3, amended: the output of Subtract has \<open>len(P)\<close> minus the number of entries of \<open>P\<close>,
  counted with their repetitions, that are in \<open>R\<close> many lines; the removed count is that number,
  and it is the original length minus the length of the result. When \<open>P\<close> has no repeated line,
  the number is the cardinality of the set of lines of \<open>P\<close> that are in \<open>R\<close>.
\<close>

theorem subtract_lines_length:
  "length (delete_result (subtract_lines P R)) =
     length P - length (filter (\<lambda>x. x \<in> set R) P) \<and>
   deletedCount (subtract_lines P R) = int (length (filter (\<lambda>x. x \<in> set R) P)) \<and>
   deletedCount (subtract_lines P R) =
     int (length P) - int (length (delete_result (subtract_lines P R))) \<and>
   (distinct P \<longrightarrow>
      length (delete_result (subtract_lines P R)) = length P - card (set P \<inter> set R))"
proof -
  let ?kept = "filter (\<lambda>x. x \<notin> set R) P" and ?gone = "filter (\<lambda>x. x \<in> set R) P"
  have res: "delete_result (subtract_lines P R) = ?kept"
    by (simp add: subtract_lines_def Let_def Set_has_iff set_new_Set)
  have cnt: "deletedCount (subtract_lines P R) = int (length P) - int (length ?kept)"
    by (simp add: subtract_lines_def Let_def Set_has_iff set_new_Set)
  have parts: "length ?gone + length ?kept = length P"
    by (rule sum_length_filter_compl)
  have len: "length ?kept = length P - length ?gone"
    using parts by arith
  have cnt2: "int (length P) - int (length ?kept) = int (length ?gone)"
    using parts by arith
  have dist: "length ?gone = card (set P \<inter> set R)" if "distinct P"
  proof -
    have "distinct ?gone" using that by simp
    then have "card (set ?gone) = length ?gone" by (rule distinct_card)
    moreover have "set ?gone = set P \<inter> set R" by auto
    ultimately show ?thesis by simp
  qed
  show ?thesis
  proof (intro conjI impI)
    show "length (delete_result (subtract_lines P R)) = length P - length ?gone"
      using len by (simp only: res)
    show "deletedCount (subtract_lines P R) = int (length ?gone)"
      using cnt cnt2 by (simp only:)
    show "deletedCount (subtract_lines P R) =
        int (length P) - int (length (delete_result (subtract_lines P R)))"
      using cnt by (simp only: res)
    show "length (delete_result (subtract_lines P R)) = length P - card (set P \<inter> set R)"
      if "distinct P"
      using len dist [OF that] by (simp only: res)
  qed
qed

text \<open>
  The amended claim C3 on the three one-letter lines of the specification's third scenario.
\<close>

theorem subtract_lines_length_witness:
  "distinct [[0x430 :: codeunit], [0x431], [0x432]] \<and>
   subtract_lines [[0x430], [0x431], [0x432]] [[0x431]] =
     \<lparr>delete_result = [[0x430], [0x432]], deletedCount = 1\<rparr> \<and>
   card (set [[0x430 :: codeunit], [0x431], [0x432]] \<inter> set [[0x431]]) = 1"
  using subtract_lines_length [of "[[0x430], [0x431], [0x432]]" "[[0x431]]"]
  by (simp add: engine_defs)

text \<open>
  Claim C4: for a consistent comparator, Normalize returns exactly the distinct lines of its
  input (the same members, none twice, none changed), ordered by the comparator, and the
  count of duplicates removed is the input length minus the output length.
\<close>

theorem normalize_lines_distinct_collated:
  assumes "consistent_comparator cmp"
  shows "set (sort_sortedWords (normalize_lines cmp lines)) = set lines \<and>
   distinct (sort_sortedWords (normalize_lines cmp lines)) \<and>
   collated cmp (sort_sortedWords (normalize_lines cmp lines)) \<and>
   mset (sort_sortedWords (normalize_lines cmp lines)) = mset (remdups lines) \<and>
   duplicatesRemoved (normalize_lines cmp lines) =
     int (length lines) - int (length (sort_sortedWords (normalize_lines cmp lines))) \<and>
   duplicatesRemoved (normalize_lines cmp lines) = int (length lines) - int (card (set lines))"
proof -
  have out: "sort_sortedWords (normalize_lines cmp lines) = Array_sort cmp (new_Set lines)"
    by (simp add: normalize_lines_def Let_def)
  have d: "distinct (Array_sort cmp (new_Set lines))"
    by (simp add: distinct_Array_sort distinct_new_Set)
  have s: "set (Array_sort cmp (new_Set lines)) = set lines"
    by (simp add: set_Array_sort set_new_Set)
  have m: "mset (Array_sort cmp (new_Set lines)) = mset (remdups lines)"
    using d s by (metis distinct_remdups set_eq_iff_mset_eq_distinct set_remdups)
  have l: "length (Array_sort cmp (new_Set lines)) = card (set lines)"
    by (simp add: length_Array_sort length_new_Set)
  have c: "duplicatesRemoved (normalize_lines cmp lines) =
     int (length lines) - int (length (sort_sortedWords (normalize_lines cmp lines)))"
    by (simp add: normalize_lines_def Let_def)
  show ?thesis
    using d s m l c collated_Array_sort [OF assms, of "new_Set lines"] by (simp add: out)
qed

text \<open>
  Claim C4 on the specification's first scenario with one line repeated.
\<close>

theorem normalize_lines_distinct_collated_witness:
  "consistent_comparator codeunit_compare \<and>
   normalize_lines codeunit_compare
     [[0x431, 0x430, 0x43D, 0x430, 0x43D], [0x44F, 0x431, 0x43B, 0x43E, 0x43A, 0x43E],
      [0x433, 0x440, 0x443, 0x448, 0x430], [0x431, 0x430, 0x43D, 0x430, 0x43D]] =
     \<lparr>sort_sortedWords =
        [[0x431, 0x430, 0x43D, 0x430, 0x43D], [0x433, 0x440, 0x443, 0x448, 0x430],
         [0x44F, 0x431, 0x43B, 0x43E, 0x43A, 0x43E]],
      duplicatesRemoved = 1\<rparr> \<and>
   collated codeunit_compare
     [[0x431, 0x430, 0x43D, 0x430, 0x43D], [0x433, 0x440, 0x443, 0x448, 0x430],
      [0x44F, 0x431, 0x43B, 0x43E, 0x43A, 0x43E]]"
  using codeunit_compare_consistent
    normalize_lines_distinct_collated [OF codeunit_compare_consistent, of
      "[[0x431, 0x430, 0x43D, 0x430, 0x43D], [0x44F, 0x431, 0x43B, 0x43E, 0x43A, 0x43E],
        [0x433, 0x440, 0x443, 0x448, 0x430], [0x431, 0x430, 0x43D, 0x430, 0x43D]]"]
  by (simp add: engine_defs)

text \<open>
  Claim C5: the output of Subtract is a subsequence of \<open>P\<close>: its lines are lines of \<open>P\<close> in their
  original order, none of them is in \<open>R\<close>, and nothing but the filtering happens, so that a line
  that is not in \<open>R\<close> occurs as often in the output as in \<open>P\<close>.
\<close>

theorem subtract_lines_subsequence:
  "subseq (delete_result (subtract_lines P R)) P \<and>
   (\<forall>x\<in>set (delete_result (subtract_lines P R)). x \<in> set P \<and> x \<notin> set R) \<and>
   delete_result (subtract_lines P R) = filter (\<lambda>x. x \<notin> set R) P \<and>
   (\<forall>x. x \<notin> set R \<longrightarrow> count_list (delete_result (subtract_lines P R)) x = count_list P x)"
proof -
  have res: "delete_result (subtract_lines P R) = filter (\<lambda>x. x \<notin> set R) P"
    by (simp add: subtract_lines_def Let_def Set_has_iff set_new_Set)
  have cnt: "count_list (filter (\<lambda>x. x \<notin> set R) P) x = count_list P x" if "x \<notin> set R" for x
    using that by (induction P) auto
  show ?thesis using cnt by (simp add: res)
qed

text \<open>
  Claim C5 on an unsorted collection with a repeated line.
\<close>

theorem subtract_lines_subsequence_witness:
  "subtract_lines [[0x432], [0x430], [0x432], [0x431]] [[0x431], [0x433]] =
     \<lparr>delete_result = [[0x432], [0x430], [0x432]], deletedCount = 1\<rparr> \<and>
   subseq [[0x432], [0x430], [0x432]] [[0x432], [0x430], [0x432], [0x431 :: codeunit]] \<and>
   [0x432 :: codeunit] \<notin> set [[0x431], [0x433]] \<and>
   count_list [[0x432], [0x430], [0x432 :: codeunit]] [0x432] = 2"
  using subtract_lines_subsequence [of "[[0x432], [0x430], [0x432], [0x431]]" "[[0x431], [0x433]]"]
  by (simp add: engine_defs)

text \<open>
  Claim C6: for a consistent comparator, Normalize applied to its own output returns the same
  sequence, with no duplicate removed.
\<close>

theorem normalize_lines_idempotent:
  assumes "consistent_comparator cmp"
  shows "sort_sortedWords (normalize_lines cmp (sort_sortedWords (normalize_lines cmp lines))) =
      sort_sortedWords (normalize_lines cmp lines) \<and>
    duplicatesRemoved (normalize_lines cmp (sort_sortedWords (normalize_lines cmp lines))) = 0"
proof -
  let ?out = "Array_sort cmp (new_Set lines)"
  have out: "sort_sortedWords (normalize_lines cmp lines) = ?out"
    by (simp add: normalize_lines_def Let_def)
  have d: "distinct ?out" by (simp add: distinct_Array_sort distinct_new_Set)
  have c: "collated cmp ?out" by (rule collated_Array_sort [OF assms])
  have "new_Set ?out = ?out" using d by (rule new_Set_distinct)
  moreover have "Array_sort cmp ?out = ?out" using c by (rule Array_sort_collated)
  ultimately have "normalize_lines cmp ?out = \<lparr>sort_sortedWords = ?out, duplicatesRemoved = 0\<rparr>"
    by (simp add: normalize_lines_def Let_def)
  then show ?thesis by (simp add: out)
qed

text \<open>
  Claim C6 on the lines used for claim C4.
\<close>

theorem normalize_lines_idempotent_witness:
  "consistent_comparator codeunit_compare \<and>
   sort_sortedWords (normalize_lines codeunit_compare
     [[0x431, 0x430, 0x43D, 0x430, 0x43D], [0x44F, 0x431, 0x43B, 0x43E, 0x43A, 0x43E],
      [0x433, 0x440, 0x443, 0x448, 0x430], [0x431, 0x430, 0x43D, 0x430, 0x43D]]) =
     [[0x431, 0x430, 0x43D, 0x430, 0x43D], [0x433, 0x440, 0x443, 0x448, 0x430],
      [0x44F, 0x431, 0x43B, 0x43E, 0x43A, 0x43E]] \<and>
   normalize_lines codeunit_compare
     [[0x431, 0x430, 0x43D, 0x430, 0x43D], [0x433, 0x440, 0x443, 0x448, 0x430],
      [0x44F, 0x431, 0x43B, 0x43E, 0x43A, 0x43E]] =
     \<lparr>sort_sortedWords =
        [[0x431, 0x430, 0x43D, 0x430, 0x43D], [0x433, 0x440, 0x443, 0x448, 0x430],
         [0x44F, 0x431, 0x43B, 0x43E, 0x43A, 0x43E]],
      duplicatesRemoved = 0\<rparr>"
  using codeunit_compare_consistent
    normalize_lines_idempotent [OF codeunit_compare_consistent, of
      "[[0x431, 0x430, 0x43D, 0x430, 0x43D], [0x44F, 0x431, 0x43B, 0x43E, 0x43A, 0x43E],
        [0x433, 0x440, 0x443, 0x448, 0x430], [0x431, 0x430, 0x43D, 0x430, 0x43D]]"]
  by (simp add: engine_defs)

section \<open>The commands and the files\<close>

text \<open>
  Claim C7: in every run of \<^verbatim>\<open>add\<close>, \<^verbatim>\<open>delete\<close> and \<^verbatim>\<open>sort\<close>, whatever is written is
  written to the dictionary file and in the encoding that was detected for this file at the
  start of the run, whatever the encoding of the second file.
\<close>

theorem written_in_detected_encoding:
  "(\<forall>p enc ls. Written p enc ls \<in> set (fst (addWords cmp fs dictPath newWordsPath)) \<longrightarrow>
      p = dictPath \<and> snd (detectEncoding fs dictPath) = Inr enc) \<and>
   (\<forall>p enc ls. Written p enc ls \<in> set (fst (deleteWords fs dictPath wordsToDeletePath)) \<longrightarrow>
      p = dictPath \<and> snd (detectEncoding fs dictPath) = Inr enc) \<and>
   (\<forall>p enc ls. Written p enc ls \<in> set (fst (sortDictionary cmp fs dictPath)) \<longrightarrow>
      p = dictPath \<and> snd (detectEncoding fs dictPath) = Inr enc)"
proof -
  obtain ld where d: "detectEncoding fs dictPath = ([ReadFile dictPath], Inr ld)"
    by (rule detectEncoding_shape)
  have add: "p = dictPath \<and> snd (detectEncoding fs dictPath) = Inr enc"
    if "Written p enc ls \<in> set (fst (addWords cmp fs dictPath newWordsPath))" for p enc ls
    using that by (cases rule: addWords_shape [OF d, of cmp newWordsPath]) (simp_all add: d)
  have del: "p = dictPath \<and> snd (detectEncoding fs dictPath) = Inr enc"
    if "Written p enc ls \<in> set (fst (deleteWords fs dictPath wordsToDeletePath))" for p enc ls
    using that by (cases rule: deleteWords_shape [OF d, of wordsToDeletePath]) (simp_all add: d)
  have srt: "p = dictPath \<and> snd (detectEncoding fs dictPath) = Inr enc"
    if "Written p enc ls \<in> set (fst (sortDictionary cmp fs dictPath))" for p enc ls
    using that by (cases rule: sortDictionary_shape [OF d, of cmp]) (simp_all add: d)
  show ?thesis using add del srt by blast
qed

text \<open>
  Claim C7 on a Windows-1251 dictionary and new words in UTF-8: the result is written in
  Windows-1251.
\<close>

theorem written_in_detected_encoding_witness:
  "Written ''dict.txt'' Windows1251
      [[0x434, 0x43E, 0x43C], [0x43A, 0x43E, 0x442], [0x43B, 0x438, 0x441, 0x430]]
     \<in> set (fst (addWords codeunit_compare example_fs ''dict.txt'' ''new.txt'')) \<and>
   snd (detectEncoding example_fs ''dict.txt'') = Inr Windows1251 \<and>
   snd (detectEncoding example_fs ''new.txt'') = Inr Utf8"
  using written_in_detected_encoding [of codeunit_compare example_fs "''dict.txt''" "''new.txt''"]
  by (simp add: ex_add ex_detect)

text \<open>
  Claim C8: when the encoding detected for the dictionary is \<^verbatim>\<open>unknown\<close>, a run of
  \<^verbatim>\<open>add\<close>, \<^verbatim>\<open>delete\<close> or \<^verbatim>\<open>sort\<close> opens no file for writing and writes nothing: it stops
  with the decoder's error. In every run the write events come last, after every read, and the
  lines written are the complete result that the run reports.
\<close>

theorem unknown_encoding_no_write:
  "(snd (detectEncoding fs dictPath) = Inr Unknown \<longrightarrow>
      \<not> list_ex is_write (fst (addWords cmp fs dictPath newWordsPath)) \<and>
      snd (addWords cmp fs dictPath newWordsPath) = Inl (EncodingNotRecognized Unknown) \<and>
      \<not> list_ex is_write (fst (deleteWords fs dictPath wordsToDeletePath)) \<and>
      snd (deleteWords fs dictPath wordsToDeletePath) = Inl (EncodingNotRecognized Unknown) \<and>
      \<not> list_ex is_write (fst (sortDictionary cmp fs dictPath)) \<and>
      snd (sortDictionary cmp fs dictPath) = Inl (EncodingNotRecognized Unknown)) \<and>
   writes_last (fst (addWords cmp fs dictPath newWordsPath)) \<and>
   writes_last (fst (deleteWords fs dictPath wordsToDeletePath)) \<and>
   writes_last (fst (sortDictionary cmp fs dictPath)) \<and>
   (\<forall>p enc ls. Written p enc ls \<in> set (fst (addWords cmp fs dictPath newWordsPath)) \<longrightarrow>
      (\<exists>report. snd (addWords cmp fs dictPath newWordsPath) = Inr report \<and>
         ls = add_sortedWords report)) \<and>
   (\<forall>p enc ls. Written p enc ls \<in> set (fst (deleteWords fs dictPath wordsToDeletePath)) \<longrightarrow>
      (\<exists>report. snd (deleteWords fs dictPath wordsToDeletePath) = Inr report \<and>
         ls = delete_result report)) \<and>
   (\<forall>p enc ls. Written p enc ls \<in> set (fst (sortDictionary cmp fs dictPath)) \<longrightarrow>
      (\<exists>report. snd (sortDictionary cmp fs dictPath) = Inr report \<and>
         ls = sort_sortedWords report))"
proof -
  obtain ld where d: "detectEncoding fs dictPath = ([ReadFile dictPath], Inr ld)"
    by (rule detectEncoding_shape)
  have unknown: "\<not> list_ex is_write (fst (addWords cmp fs dictPath newWordsPath)) \<and>
      snd (addWords cmp fs dictPath newWordsPath) = Inl (EncodingNotRecognized Unknown) \<and>
      \<not> list_ex is_write (fst (deleteWords fs dictPath wordsToDeletePath)) \<and>
      snd (deleteWords fs dictPath wordsToDeletePath) = Inl (EncodingNotRecognized Unknown) \<and>
      \<not> list_ex is_write (fst (sortDictionary cmp fs dictPath)) \<and>
      snd (sortDictionary cmp fs dictPath) = Inl (EncodingNotRecognized Unknown)"
    if u: "snd (detectEncoding fs dictPath) = Inr Unknown"
    by (simp add: addWords_Unknown [OF u] deleteWords_Unknown [OF u]
        sortDictionary_Unknown [OF u] is_write_simps)
  have add_last: "writes_last (fst (addWords cmp fs dictPath newWordsPath))"
    by (cases rule: addWords_shape [OF d, of cmp newWordsPath])
       (simp_all add: writes_last_def is_write_simps)
  have del_last: "writes_last (fst (deleteWords fs dictPath wordsToDeletePath))"
    by (cases rule: deleteWords_shape [OF d, of wordsToDeletePath])
       (simp_all add: writes_last_def is_write_simps)
  have srt_last: "writes_last (fst (sortDictionary cmp fs dictPath))"
    by (cases rule: sortDictionary_shape [OF d, of cmp])
       (simp_all add: writes_last_def is_write_simps)
  have add_full: "\<exists>report. snd (addWords cmp fs dictPath newWordsPath) = Inr report \<and>
         ls = add_sortedWords report"
    if "Written p enc ls \<in> set (fst (addWords cmp fs dictPath newWordsPath))" for p enc ls
    using that by (cases rule: addWords_shape [OF d, of cmp newWordsPath]) simp_all
  have del_full: "\<exists>report. snd (deleteWords fs dictPath wordsToDeletePath) = Inr report \<and>
         ls = delete_result report"
    if "Written p enc ls \<in> set (fst (deleteWords fs dictPath wordsToDeletePath))" for p enc ls
    using that by (cases rule: deleteWords_shape [OF d, of wordsToDeletePath]) simp_all
  have srt_full: "\<exists>report. snd (sortDictionary cmp fs dictPath) = Inr report \<and>
         ls = sort_sortedWords report"
    if "Written p enc ls \<in> set (fst (sortDictionary cmp fs dictPath))" for p enc ls
    using that by (cases rule: sortDictionary_shape [OF d, of cmp]) simp_all
  show ?thesis
    using unknown add_last del_last srt_last add_full del_full srt_full by blast
qed

text \<open>
  Claim C8 on the file of digits, and on the run of \<^verbatim>\<open>add\<close> that does write.
\<close>

theorem unknown_encoding_no_write_witness:
  "snd (detectEncoding example_fs ''digits.txt'') = Inr Unknown \<and>
   \<not> list_ex is_write (fst (sortDictionary codeunit_compare example_fs ''digits.txt'')) \<and>
   snd (sortDictionary codeunit_compare example_fs ''digits.txt'') =
     Inl (EncodingNotRecognized Unknown) \<and>
   Written ''dict.txt'' Windows1251
      [[0x434, 0x43E, 0x43C], [0x43A, 0x43E, 0x442], [0x43B, 0x438, 0x441, 0x430]]
     \<in> set (fst (addWords codeunit_compare example_fs ''dict.txt'' ''new.txt'')) \<and>
   writes_last (fst (addWords codeunit_compare example_fs ''dict.txt'' ''new.txt''))"
  using unknown_encoding_no_write [of example_fs "''digits.txt''" codeunit_compare "''new.txt''" "''new.txt''"]
    unknown_encoding_no_write [of example_fs "''dict.txt''" codeunit_compare "''new.txt''" "''new.txt''"]
  by (simp add: ex_detect ex_add)

text \<open>
  Claim C9, as the specification states it: a file that cannot be read during encoding
  detection surfaces as an error. It does not: for a missing file the read fails, and the
  detection returns the label \<^verbatim>\<open>unknown\<close> as a normal result.
\<close>

theorem missing_file_detection_counterexample:
  "snd (readFile no_files ''missing.txt'') = Inl (IOFailure ENOENT) \<and>
   snd (detectEncoding no_files ''missing.txt'') = Inr Unknown"
  by (simp add: readFile_def detectEncoding_def no_files_def)

text \<open>
  Claim C9, amended: a read failure during encoding detection is not passed on. The detection
  reads once, absorbs the failure and returns the label \<^verbatim>\<open>unknown\<close>; when the file is the
  dictionary, each command then stops with the decoder's error for an unrecognised encoding,
  not with the read failure.
\<close>

theorem detection_absorbs_read_failure:
  "snd (readFile fs dictPath) = Inl e \<Longrightarrow>
     detectEncoding fs dictPath = ([ReadFile dictPath], Inr Unknown) \<and>
     snd (addWords cmp fs dictPath newWordsPath) = Inl (EncodingNotRecognized Unknown) \<and>
     snd (deleteWords fs dictPath wordsToDeletePath) = Inl (EncodingNotRecognized Unknown) \<and>
     snd (sortDictionary cmp fs dictPath) = Inl (EncodingNotRecognized Unknown)"
proof -
  assume "snd (readFile fs dictPath) = Inl e"
  then have d: "detectEncoding fs dictPath = ([ReadFile dictPath], Inr Unknown)"
    by (rule read_failure_gives_Unknown)
  then have u: "snd (detectEncoding fs dictPath) = Inr Unknown" by simp
  show ?thesis
    by (simp add: d addWords_Unknown [OF u] deleteWords_Unknown [OF u] sortDictionary_Unknown [OF u])
qed

text \<open>
  The amended claim C9 on a file that the process may not read.
\<close>

theorem detection_absorbs_read_failure_witness:
  "snd (readFile example_fs ''locked.txt'') = Inl (IOFailure EACCES) \<and>
   detectEncoding example_fs ''locked.txt'' = ([ReadFile ''locked.txt''], Inr Unknown) \<and>
   snd (sortDictionary codeunit_compare example_fs ''locked.txt'') =
     Inl (EncodingNotRecognized Unknown)"
proof -
  have h: "snd (readFile example_fs ''locked.txt'') = Inl (IOFailure EACCES)"
    by (simp add: readFile_def example_defs)
  show ?thesis
    using h detection_absorbs_read_failure [OF h, of codeunit_compare "''new.txt''" "''new.txt''"] by simp
qed

end
